theory Spec2Isabelle
  imports Main "HOL-Library.Word"
begin

section \<open>Data model\<close>

text \<open>
  Go's \<open>int64\<close> and \<open>int32\<close> are fixed-width two's complement integers: \<open>+\<close> wraps
  around, \<open>==\<close> compares bit patterns, and \<open><=\<close>, \<open>>\<close> are the signed orders
  \<open><=s\<close> and \<open><s\<close>.
\<close>

type_synonym int64 = "64 word"
type_synonym int32 = "32 word"

text \<open>The panics and error returns of the modelled code.\<close>

datatype error =
    TypeAssertionPanic   \<comment> \<open>\<open>x.(T)\<close> on an interface value that holds no \<open>T\<close>\<close>
  | NilDereferencePanic  \<comment> \<open>field read through a nil pointer\<close>
  | SliceBoundsPanic     \<comment> \<open>\<open>s[i:j]\<close> with \<open>j < i\<close>\<close>
  | FetchError string    \<comment> \<open>an error value returned by a fetch\<close>
  | QueryError string    \<comment> \<open>an error value returned by the database connection\<close>
  | Wrapped error string \<comment> \<open>\<open>utils.Wrap(err, msg)\<close> of a non-nil error\<close>

text \<open>\<open>model_struct.LocalGroup\<close>: the field the code reads, \<open>LocalGroup.GroupID\<close> below.\<close>

record LocalGroup =
  GroupID :: string

text \<open>\<open>sdkws.MsgData\<close>: the fields the synchronizer reads.\<close>

record MsgData =
  GroupID :: string
  SessionType :: int32
  Seq :: int64

text \<open>\<open>type Seq struct\<close>. Its field \<open>sessionType\<close> is read as \<open>Seq.sessionType\<close>
  below, since \<open>SyncedSeq\<close> has a field of the same name.\<close>

record Seq =
  maxSeq :: int64
  minSeq :: int64
  sessionType :: int32

text \<open>\<open>type SyncedSeq struct\<close>.\<close>

record SyncedSeq =
  maxSeqSynced :: int64
  sessionType :: int32

text \<open>
  \<open>type MsgSyncer struct\<close>, reduced to what the modelled methods read and write.
  \<open>conversationCh\<close> holds the batches handed to \<open>common.TriggerCmdNewMsgCome\<close>, oldest
  first. \<open>fetchCalls\<close> is a trace: the arguments
  \<open>(sourceID, sessionType, syncedMaxSeq, maxSeq)\<close> of every call of
  \<open>syncMsgBySeqsInterval\<close>, oldest first.
\<close>

record MsgSyncer =
  syncedMaxSeqs :: "string \<rightharpoonup> SyncedSeq"
  syncTimes :: int64
  conversationCh :: "MsgData list list"
  fetchCalls :: "(string \<times> int32 \<times> int64 \<times> int64) list"

text \<open>The command kinds \<open>constant.Cmd...\<close> that the code switches on; every other command
  string is \<open>CmdOther\<close>.\<close>

datatype cmd =
    CmdInit | CmdReconnect | CmdConnSuccesss | CmdMaxSeq | CmdPushMsg | CmdOther string

text \<open>
  The dynamic type of \<open>Cmd2Value.Value\<close> (an \<open>interface{}\<close>): the payload shapes that the
  code asserts, the untyped nil, and anything else. A \<open>*sdkws.MsgData\<close> may be a nil
  pointer (\<open>None\<close>). A \<open>map[string]Seq\<close> is listed in the order in which \<open>range\<close> visits it.
\<close>

datatype "value" =
    NilValue
  | MsgDataPtr "MsgData option"
  | SeqMap "(string \<times> Seq) list"
  | CmdMaxSeqToMsgSyncPtr
  | PushMessagesPtr
  | OtherValue

record Cmd2Value =
  Cmd :: cmd
  Value :: "value"

section \<open>The super group table\<close>

text \<open>\<open>utils.Wrap\<close>: nil stays nil, an error is wrapped with the message.\<close>

definition Wrap :: "error option \<Rightarrow> string \<Rightarrow> error option" where
  "Wrap err msg = (case err of None \<Rightarrow> None | Some e \<Rightarrow> Some (Wrapped e msg))"

text \<open>
  \<open>GetJoinedSuperGroupList\<close>. The outcome of
  \<open>d.conn.Table(SuperGroupTableName).Find(&groupList)\<close> is the parameter \<open>found\<close>: the rows
  read into \<open>groupList\<close> and the \<open>Error\<close> field. A nil slice is the empty list.
\<close>

definition GetJoinedSuperGroupList ::
  "LocalGroup list \<times> error option \<Rightarrow> LocalGroup list \<times> error option" where
  "GetJoinedSuperGroupList found =
     (let groupList = fst found; err = snd found;
          transfer = foldl (\<lambda>transfer v. transfer @ [v]) [] groupList
      in (transfer, Wrap err ''GetJoinedSuperGroupList failed ''))"

definition GetJoinedSuperGroupIDList ::
  "LocalGroup list \<times> error option \<Rightarrow> string list \<times> error option" where
  "GetJoinedSuperGroupIDList found =
     (case GetJoinedSuperGroupList found of
        (groupList, Some err) \<Rightarrow> ([], Wrap (Some err) '''')
      | (groupList, None) \<Rightarrow>
          (let groupIDList = foldl (\<lambda>groupIDList v. groupIDList @ [LocalGroup.GroupID v]) [] groupList
           in ([], None)))"

section \<open>The synchronizer\<close>

subsection \<open>Delivery and fetch\<close>

text \<open>Reading \<open>m.syncedMaxSeqs[k]\<close>: a missing key reads as the zero value.\<close>

definition lookupSynced :: "MsgSyncer \<Rightarrow> string \<Rightarrow> SyncedSeq" where
  "lookupSynced m k =
     (case syncedMaxSeqs m k of
        None \<Rightarrow> \<lparr>maxSeqSynced = 0, sessionType = 0\<rparr>
      | Some s \<Rightarrow> s)"

text \<open>
  \<open>triggerConversation\<close> hands the batch to \<open>common.TriggerCmdNewMsgCome\<close>. Every caller
  discards the error it returns (\<open>_ = m.triggerConversation(...)\<close>), so the model keeps
  the call only.
\<close>

definition triggerConversation :: "MsgSyncer \<Rightarrow> MsgData list \<Rightarrow> MsgSyncer" where
  "triggerConversation m msgs = m\<lparr>conversationCh := conversationCh m @ [msgs]\<rparr>"

text \<open>\<open>syncMsgBySeqsInterval\<close>: returns its named result \<open>partMsgs\<close>, never assigned, and a
  nil error.\<close>

definition syncMsgBySeqsInterval ::
  "string \<Rightarrow> int32 \<Rightarrow> int64 \<Rightarrow> int64 \<Rightarrow> error + MsgData list" where
  "syncMsgBySeqsInterval sourceID sesstionType syncedMaxSeq syncedMinSeq = Inr []"

text \<open>
  \<open>syncAndTriggerMsgs\<close> and \<open>sync\<close>, first with the fetch they call as a parameter, so
  that both of their branches can be stated, then as the source has them, calling
  \<open>syncMsgBySeqsInterval\<close>. The result is the returned error and the synchronizer after
  the call.
\<close>

definition syncAndTriggerMsgs_with ::
  "(string \<Rightarrow> int32 \<Rightarrow> int64 \<Rightarrow> int64 \<Rightarrow> error + MsgData list) \<Rightarrow>
   MsgSyncer \<Rightarrow> string \<Rightarrow> int32 \<Rightarrow> int64 \<Rightarrow> int64 \<Rightarrow> error option \<times> MsgSyncer" where
  "syncAndTriggerMsgs_with fetch m sourceID sessType syncedMaxSeq maxSeq' =
     (let m1 = m\<lparr>fetchCalls := fetchCalls m @ [(sourceID, sessType, syncedMaxSeq, maxSeq')]\<rparr>
      in case fetch sourceID sessType syncedMaxSeq maxSeq' of
           Inl err \<Rightarrow> (Some err, m1)
         | Inr msgs \<Rightarrow> (None, triggerConversation m1 msgs))"

definition sync_with ::
  "(string \<Rightarrow> int32 \<Rightarrow> int64 \<Rightarrow> int64 \<Rightarrow> error + MsgData list) \<Rightarrow>
   MsgSyncer \<Rightarrow> string \<Rightarrow> int32 \<Rightarrow> int64 \<Rightarrow> int64 \<Rightarrow> error option \<times> MsgSyncer" where
  "sync_with fetch m sourceID sessType syncedMaxSeq maxSeq' =
     (case syncAndTriggerMsgs_with fetch m sourceID sessType syncedMaxSeq maxSeq' of
        (Some err, m1) \<Rightarrow> (Some err, m1)
      | (None, m1) \<Rightarrow>
          (None, m1\<lparr>syncedMaxSeqs := (syncedMaxSeqs m1)
             (sourceID \<mapsto> \<lparr>maxSeqSynced = maxSeq', sessionType = sessType\<rparr>)\<rparr>))"

definition syncAndTriggerMsgs ::
  "MsgSyncer \<Rightarrow> string \<Rightarrow> int32 \<Rightarrow> int64 \<Rightarrow> int64 \<Rightarrow> error option \<times> MsgSyncer" where
  "syncAndTriggerMsgs = syncAndTriggerMsgs_with syncMsgBySeqsInterval"

definition sync :: "MsgSyncer \<Rightarrow> string \<Rightarrow> int32 \<Rightarrow> int64 \<Rightarrow> int64 \<Rightarrow> error option \<times> MsgSyncer" where
  "sync = sync_with syncMsgBySeqsInterval"

subsection \<open>Sweeps over the cursor map\<close>

text \<open>
  \<open>for groupID, syncedSeq := range m.syncedMaxSeqs\<close> visits the keys of the map in an
  order that Go leaves open. The order of the visit is the parameter \<open>ks\<close>; a key that
  is not in the map is not visited. \<open>sync\<close> writes only the entry of the key it is
  called with, which is in the map already, so the map's keys do not change during the
  sweep. The error \<open>sync\<close> returns is logged and dropped.
\<close>

definition reconnectStep :: "MsgSyncer \<Rightarrow> string \<Rightarrow> MsgSyncer" where
  "reconnectStep m groupID =
     (case syncedMaxSeqs m groupID of
        None \<Rightarrow> m
      | Some syncedSeq \<Rightarrow>
          if maxSeqSynced syncedSeq = 0 then m
          else snd (sync m groupID (SyncedSeq.sessionType syncedSeq) 0 (maxSeqSynced syncedSeq)))"

definition triggerReconnect :: "string list \<Rightarrow> MsgSyncer \<Rightarrow> MsgSyncer" where
  "triggerReconnect ks m = foldl reconnectStep m ks"

definition triggerReconnectFinished :: "string list \<Rightarrow> MsgSyncer \<Rightarrow> MsgSyncer" where
  "triggerReconnectFinished ks m = foldl reconnectStep m ks"

definition defaultPullNums :: int64 where
  "defaultPullNums = 1"

definition syncStep :: "MsgSyncer \<Rightarrow> string \<Rightarrow> MsgSyncer" where
  "syncStep m groupID =
     (case syncedMaxSeqs m groupID of
        None \<Rightarrow> m
      | Some syncedSeq \<Rightarrow>
          if maxSeqSynced syncedSeq = 0 then m
          else snd (sync m groupID (SyncedSeq.sessionType syncedSeq) (maxSeqSynced syncedSeq)
                      (maxSeqSynced syncedSeq + defaultPullNums)))"

definition triggerSync :: "string list \<Rightarrow> MsgSyncer \<Rightarrow> MsgSyncer" where
  "triggerSync ks m = foldl syncStep m ks"

text \<open>\<open>triggerSyncFinished\<close> only logs.\<close>

definition triggerSyncFinished :: "MsgSyncer \<Rightarrow> MsgSyncer" where
  "triggerSyncFinished m = m"

subsection \<open>Snapshot comparison\<close>

text \<open>The body of \<open>for sourceID, newSeq := range newSeqMap\<close>.\<close>

definition compareStep :: "MsgSyncer \<Rightarrow> string \<times> Seq \<Rightarrow> MsgSyncer" where
  "compareStep m entry =
     (let sourceID = fst entry; newSeq = snd entry in
      case syncedMaxSeqs m sourceID of
        Some syncedSeq \<Rightarrow>
          if maxSeqSynced syncedSeq <s maxSeq newSeq
          then snd (sync m sourceID (Seq.sessionType newSeq) (maxSeqSynced syncedSeq) (maxSeq newSeq))
          else m
      | None \<Rightarrow> snd (sync m sourceID (Seq.sessionType newSeq) 0 (maxSeq newSeq)))"

text \<open>
  \<open>compareSeqsAndTrigger\<close>. \<open>ks1\<close> is the order of the sweep before the loop, \<open>ks2\<close>
  the order of the deferred sweep, which runs after \<open>m.syncTimes++\<close>.
\<close>

definition compareSeqsAndTrigger ::
  "string list \<Rightarrow> string list \<Rightarrow> Cmd2Value \<Rightarrow> MsgSyncer \<Rightarrow> error + MsgSyncer" where
  "compareSeqsAndTrigger ks1 ks2 c m =
     (case Value c of
        SeqMap newSeqMap \<Rightarrow>
          (let m1 = (case Cmd c of
                       CmdInit \<Rightarrow> triggerSync ks1 m
                     | CmdReconnect \<Rightarrow> triggerReconnect ks1 m
                     | _ \<Rightarrow> m);
               m2 = foldl compareStep m1 newSeqMap;
               m3 = m2\<lparr>syncTimes := syncTimes m2 + 1\<rparr>
           in Inr (case Cmd c of
                     CmdInit \<Rightarrow> triggerSyncFinished m3
                   | CmdReconnect \<Rightarrow> triggerReconnectFinished ks2 m3
                   | _ \<Rightarrow> m3))
      | _ \<Rightarrow> Inl TypeAssertionPanic)"

subsection \<open>Pushed messages\<close>

text \<open>
  \<open>handlePushMsgAndEvent\<close>. The first statement asserts the payload to be a
  \<open>*sdkws.MsgData\<close>. In the switch, the cases \<open>CmdMaxSeq\<close> and \<open>CmdPushMsg\<close> assert the
  same payload to be of another type while they evaluate the argument of \<open>doMaxSeq\<close> and
  \<open>doPushMsg\<close>, so neither of the two is ever entered. \<open>doConnected\<close> is not part
  of the source file: it is a parameter, a function on the synchronizer. \<open>msg.Seq\<close>
  reads through the pointer.
\<close>

definition handlePushMsgAndEvent ::
  "(MsgSyncer \<Rightarrow> MsgSyncer) \<Rightarrow> Cmd2Value \<Rightarrow> MsgSyncer \<Rightarrow> error + MsgSyncer" where
  "handlePushMsgAndEvent doConnected c m =
     (case Value c of
        MsgDataPtr msgPtr \<Rightarrow>
          (case (case Cmd c of
                   CmdConnSuccesss \<Rightarrow> Inr (doConnected m)
                 | CmdMaxSeq \<Rightarrow> Inl TypeAssertionPanic
                 | CmdPushMsg \<Rightarrow> Inl TypeAssertionPanic
                 | _ \<Rightarrow> Inr m) of
             Inl e \<Rightarrow> Inl e
           | Inr m1 \<Rightarrow>
               (case msgPtr of
                  None \<Rightarrow> Inl NilDereferencePanic
                | Some msg \<Rightarrow>
                    if Seq msg = 0 then Inr (triggerConversation m1 [msg])
                    else if Seq msg = maxSeqSynced (lookupSynced m1 (GroupID msg)) + 1 then
                      (let m2 = triggerConversation m1 [msg];
                           oldSeq = lookupSynced m2 (GroupID msg)
                       in Inr (m2\<lparr>syncedMaxSeqs := (syncedMaxSeqs m2)
                                 (GroupID msg \<mapsto> oldSeq\<lparr>maxSeqSynced := Seq msg\<rparr>)\<rparr>))
                    else Inr (snd (sync m1 (GroupID msg) (SessionType msg)
                                     (maxSeqSynced (lookupSynced m1 (GroupID msg))) (Seq msg)))))
      | _ \<Rightarrow> Inl TypeAssertionPanic)"

text \<open>
  \<open>DoListener\<close> on the commands that arrive on \<open>PushMsgAndMaxSeqCh\<close> before the context
  is done: one command at a time, in order; a panic ends the run.
\<close>

fun DoListener ::
  "(MsgSyncer \<Rightarrow> MsgSyncer) \<Rightarrow> Cmd2Value list \<Rightarrow> MsgSyncer \<Rightarrow> error + MsgSyncer" where
  "DoListener doConnected [] m = Inr m"
| "DoListener doConnected (c # cs) m =
     (case handlePushMsgAndEvent doConnected c m of
        Inl e \<Rightarrow> Inl e
      | Inr m1 \<Rightarrow> DoListener doConnected cs m1)"

subsection \<open>The range fetcher\<close>

text \<open>
  \<open>getSeqsNeedSync\<close>: \<open>for i := syncedMaxSeq + 1; i <= maxSeq; i++\<close> on \<open>int64\<close>. The loop
  need not end (\<open>i <= maxSeq\<close> holds for every \<open>i\<close> when \<open>maxSeq\<close> is the largest
  \<open>int64\<close>), so the result is an option: \<open>None\<close> is a call that does not return.
\<close>

partial_function (option) getSeqsNeedSync_loop ::
  "int64 \<Rightarrow> int64 \<Rightarrow> int64 list \<Rightarrow> int64 list option" where
  "getSeqsNeedSync_loop i maxSeq' seqs =
     (if i <=s maxSeq' then getSeqsNeedSync_loop (i + 1) maxSeq' (seqs @ [i]) else Some seqs)"

definition getSeqsNeedSync :: "int64 \<Rightarrow> int64 \<Rightarrow> int64 list option" where
  "getSeqsNeedSync syncedMaxSeq maxSeq' = getSeqsNeedSync_loop (syncedMaxSeq + 1) maxSeq' []"

text \<open>The largest and the smallest \<open>int64\<close>.\<close>

definition maxInt64 :: int64 where
  "maxInt64 = 9223372036854775807"

definition minInt64 :: int64 where
  "minInt64 = - 9223372036854775808"

text \<open>
  \<open>splitSeqs\<close>. \<open>split\<close> and the loop index are Go \<open>int\<close>s; inside the loop
  \<open>split < len(seqsNeedSync)\<close> and \<open>i < len(seqsNeedSync)\<close>, so \<open>i + split\<close> does not
  overflow and they are modelled as integers. \<open>seqsNeedSync[i:end]\<close> panics when
  \<open>end < i\<close>. With \<open>split = 0\<close> the loop does not end. The outer option is \<open>None\<close> for a
  call that does not return.
\<close>

partial_function (option) splitSeqs_loop ::
  "int \<Rightarrow> int64 list \<Rightarrow> int \<Rightarrow> int64 list list \<Rightarrow> (error + int64 list list) option" where
  "splitSeqs_loop split seqsNeedSync i splitSeqs =
     (if i < int (length seqsNeedSync) then
        (let end' = (if int (length seqsNeedSync) < i + split
                     then int (length seqsNeedSync) else i + split)
         in if i < 0 \<or> end' < i then Some (Inl SliceBoundsPanic)
            else splitSeqs_loop split seqsNeedSync (i + split)
                   (splitSeqs @ [take (nat (end' - i)) (drop (nat i) seqsNeedSync)]))
      else Some (Inr splitSeqs))"

definition splitSeqs :: "int \<Rightarrow> int64 list \<Rightarrow> (error + int64 list list) option" where
  "splitSeqs split seqsNeedSync =
     (if int (length seqsNeedSync) \<le> split then Some (Inr [seqsNeedSync])
      else splitSeqs_loop split seqsNeedSync 0 [])"

text \<open>
  The outcome of one \<open>m.longConnMgr.SendReqWaitResp(...)\<close> followed by \<open>proto.Unmarshal\<close>
  of the response: the request failed, the response did not decode, or it decoded to a
  list of messages.
\<close>

datatype sendResult = SendError error | Undecodable | Decoded "MsgData list"

text \<open>
  \<open>syncMsgBySeqs\<close>. \<open>SplitPullMsgNum\<close> is \<open>constant.SplitPullMsgNum\<close>. The connection is
  the parameter \<open>net\<close>: \<open>net r k\<close> is the outcome of the \<open>k\<close>-th request the loop sends,
  sent with the retry budget \<open>r\<close> (the request is the same \<open>pullMsgReq\<close> every time). \<open>n\<close> is
  \<open>len(seqsList)\<close>. A failed request leaves \<open>i\<close> as it is; a response that does not
  decode has already advanced it. The only \<open>return\<close> is \<open>return allMsgs, nil\<close>.
\<close>

definition retryTimes :: int where
  "retryTimes = 2"

partial_function (option) syncMsgBySeqs_loop ::
  "(int \<Rightarrow> nat \<Rightarrow> sendResult) \<Rightarrow> nat \<Rightarrow> nat \<Rightarrow> nat \<Rightarrow> MsgData list \<Rightarrow>
   (MsgData list \<times> error option) option" where
  "syncMsgBySeqs_loop net k n i allMsgs =
     (if i < n then
        (case net retryTimes k of
           SendError err \<Rightarrow> syncMsgBySeqs_loop net (k + 1) n i allMsgs
         | Undecodable \<Rightarrow> syncMsgBySeqs_loop net (k + 1) n (i + 1) allMsgs
         | Decoded list \<Rightarrow> syncMsgBySeqs_loop net (k + 1) n (i + 1) (allMsgs @ list))
      else Some (allMsgs, None))"

definition syncMsgBySeqs ::
  "int \<Rightarrow> (int \<Rightarrow> nat \<Rightarrow> sendResult) \<Rightarrow> int64 list \<Rightarrow>
   (error + MsgData list \<times> error option) option" where
  "syncMsgBySeqs SplitPullMsgNum net seqsNeedSync =
     (case splitSeqs SplitPullMsgNum seqsNeedSync of
        None \<Rightarrow> None
      | Some (Inl panic) \<Rightarrow> Some (Inl panic)
      | Some (Inr seqsList) \<Rightarrow>
          map_option Inr (syncMsgBySeqs_loop net 0 (length seqsList) 0 []))"

section \<open>Reference definitions and example states\<close>

text \<open>Cutting a list into pieces of \<open>n\<close> elements, the last one possibly shorter.\<close>

function chunks :: "nat \<Rightarrow> 'a list \<Rightarrow> 'a list list" where
  "chunks n xs = (if n = 0 \<or> xs = [] then [] else take n xs # chunks n (drop n xs))"
  by pat_completeness auto
termination
  by (relation "measure (\<lambda>(n, xs). length xs)") auto

declare chunks.simps [simp del]

text \<open>A synchronizer that knows one conversation \<open>g\<close>, with cursor \<open>n\<close>.\<close>

definition syncerAt :: "string \<Rightarrow> int64 \<Rightarrow> MsgSyncer" where
  "syncerAt g n =
     \<lparr>syncedMaxSeqs = [g \<mapsto> \<lparr>maxSeqSynced = n, sessionType = 3\<rparr>], syncTimes = 0,
      conversationCh = [], fetchCalls = []\<rparr>"

text \<open>A synchronizer with the cursors \<open>{A: 10, B: 0}\<close>.\<close>

definition syncerAB :: MsgSyncer where
  "syncerAB =
     \<lparr>syncedMaxSeqs = [''A'' \<mapsto> \<lparr>maxSeqSynced = 10, sessionType = 3\<rparr>,
                       ''B'' \<mapsto> \<lparr>maxSeqSynced = 0, sessionType = 3\<rparr>],
      syncTimes = 0, conversationCh = [], fetchCalls = []\<rparr>"

text \<open>The message of conversation \<open>g\<close> with the given seq.\<close>

definition msgOf :: "string \<Rightarrow> int64 \<Rightarrow> MsgData" where
  "msgOf g n = \<lparr>GroupID = g, SessionType = 3, Seq = n\<rparr>"

text \<open>A connection on which the first request succeeds and every later request fails.\<close>

definition netSecondShardFails :: "int \<Rightarrow> nat \<Rightarrow> sendResult" where
  "netSecondShardFails r k =
     (if k = 0 then Decoded [msgOf ''g'' 1, msgOf ''g'' 2, msgOf ''g'' 3]
      else SendError (FetchError ''timeout''))"

text \<open>A connection on which the second response does not decode.\<close>

definition netSecondShardUndecodable :: "int \<Rightarrow> nat \<Rightarrow> sendResult" where
  "netSecondShardUndecodable r k =
     (if k = 0 then Decoded [msgOf ''g'' 1, msgOf ''g'' 2, msgOf ''g'' 3]
      else if k = 1 then Undecodable
      else Decoded [msgOf ''g'' 7])"

section \<open>Properties\<close>

subsection \<open>What \<open>sync\<close> computes\<close>

lemma sync_with_Inr:
  "fetch sourceID t lo hi = Inr msgs \<Longrightarrow>
   sync_with fetch m sourceID t lo hi =
     (None, m\<lparr>fetchCalls := fetchCalls m @ [(sourceID, t, lo, hi)],
              conversationCh := conversationCh m @ [msgs],
              syncedMaxSeqs := (syncedMaxSeqs m)(sourceID \<mapsto> \<lparr>maxSeqSynced = hi, sessionType = t\<rparr>)\<rparr>)"
  by (simp add: sync_with_def syncAndTriggerMsgs_with_def triggerConversation_def)

lemma sync_with_Inl:
  "fetch sourceID t lo hi = Inl e \<Longrightarrow>
   sync_with fetch m sourceID t lo hi =
     (Some e, m\<lparr>fetchCalls := fetchCalls m @ [(sourceID, t, lo, hi)]\<rparr>)"
  by (simp add: sync_with_def syncAndTriggerMsgs_with_def)

lemma sync_eq:
  "sync m sourceID t lo hi =
     (None, m\<lparr>fetchCalls := fetchCalls m @ [(sourceID, t, lo, hi)],
              conversationCh := conversationCh m @ [[]],
              syncedMaxSeqs := (syncedMaxSeqs m)(sourceID \<mapsto> \<lparr>maxSeqSynced = hi, sessionType = t\<rparr>)\<rparr>)"
  unfolding sync_def by (rule sync_with_Inr) (simp add: syncMsgBySeqsInterval_def)

text \<open>
  C8. For every source, session type and pair of bounds, \<open>syncMsgBySeqsInterval\<close> returns
  the empty list and no error; so every \<open>sync\<close> returns no error, hands one empty batch
  to the conversation sink, and sets the cursor of the source to the requested \<open>maxSeq\<close>.
\<close>

theorem sync_always_succeeds_with_empty_batch:
  "syncMsgBySeqsInterval sourceID t lo hi = Inr []
   \<and> fst (sync m sourceID t lo hi) = None
   \<and> conversationCh (snd (sync m sourceID t lo hi)) = conversationCh m @ [[]]
   \<and> syncedMaxSeqs (snd (sync m sourceID t lo hi)) sourceID
        = Some \<lparr>maxSeqSynced = hi, sessionType = t\<rparr>"
  by (simp add: sync_eq syncMsgBySeqsInterval_def)

text \<open>
  C4. Whatever the fetch that \<open>sync\<close> calls returns: when it returns messages, \<open>sync\<close>
  returns no error and the cursor of \<open>sourceID\<close> is the requested \<open>maxSeq\<close>, however many
  messages came back; when it returns an error, \<open>sync\<close> returns that error, and the cursor
  map and the sink are as they were before the call. \<open>sync\<close> itself is this function with
  \<open>syncMsgBySeqsInterval\<close> as the fetch.
\<close>

theorem sync_cursor_on_success_and_failure:
  "(fetch sourceID t lo hi = Inr msgs \<longrightarrow>
      fst (sync_with fetch m sourceID t lo hi) = None
      \<and> syncedMaxSeqs (snd (sync_with fetch m sourceID t lo hi)) sourceID
           = Some \<lparr>maxSeqSynced = hi, sessionType = t\<rparr>)
   \<and> (fetch sourceID t lo hi = Inl e \<longrightarrow>
      fst (sync_with fetch m sourceID t lo hi) = Some e
      \<and> syncedMaxSeqs (snd (sync_with fetch m sourceID t lo hi)) = syncedMaxSeqs m
      \<and> conversationCh (snd (sync_with fetch m sourceID t lo hi)) = conversationCh m)
   \<and> sync m sourceID t lo hi = sync_with syncMsgBySeqsInterval m sourceID t lo hi"
  by (simp add: sync_with_Inr sync_with_Inl sync_def)

theorem sync_cursor_on_success_and_failure_witness:
  "(\<lambda>s t lo hi. Inr [msgOf ''g'' 7]) ''g'' 3 4 10 = (Inr [msgOf ''g'' 7] :: error + MsgData list)
   \<and> fst (sync_with (\<lambda>s t lo hi. Inr [msgOf ''g'' 7]) (syncerAt ''g'' 4) ''g'' 3 4 10) = None
   \<and> syncedMaxSeqs (snd (sync_with (\<lambda>s t lo hi. Inr [msgOf ''g'' 7]) (syncerAt ''g'' 4) ''g'' 3 4 10))
        ''g'' = Some \<lparr>maxSeqSynced = 10, sessionType = 3\<rparr>
   \<and> (\<lambda>s t lo hi. Inl (FetchError ''timeout'')) ''g'' 3 4 10
        = (Inl (FetchError ''timeout'') :: error + MsgData list)
   \<and> fst (sync_with (\<lambda>s t lo hi. Inl (FetchError ''timeout'')) (syncerAt ''g'' 4) ''g'' 3 4 10)
        = Some (FetchError ''timeout'')
   \<and> syncedMaxSeqs (snd (sync_with (\<lambda>s t lo hi. Inl (FetchError ''timeout''))
          (syncerAt ''g'' 4) ''g'' 3 4 10)) ''g'' = Some \<lparr>maxSeqSynced = 4, sessionType = 3\<rparr>"
  using sync_cursor_on_success_and_failure
          [of "\<lambda>s t lo hi. Inr [msgOf ''g'' 7]" "''g''" 3 4 10
              "[msgOf ''g'' 7]" "syncerAt ''g'' 4" "FetchError ''timeout''"]
        sync_cursor_on_success_and_failure
          [of "\<lambda>s t lo hi. Inl (FetchError ''timeout'')" "''g''" 3 4 10
              "[]" "syncerAt ''g'' 4" "FetchError ''timeout''"]
  by (simp add: syncerAt_def)

subsection \<open>The super group ID list\<close>

text \<open>
  C10. Whenever the group list query returns no error, \<open>GetJoinedSuperGroupIDList\<close>
  returns the nil list and the nil error, whatever rows the table holds: the list of IDs
  it builds is dropped.
\<close>

theorem GetJoinedSuperGroupIDList_nil:
  "snd (GetJoinedSuperGroupList found) = None \<Longrightarrow> GetJoinedSuperGroupIDList found = ([], None)"
  by (auto simp: GetJoinedSuperGroupIDList_def split: prod.splits option.splits)

theorem GetJoinedSuperGroupIDList_nil_witness:
  "snd (GetJoinedSuperGroupList
          ([\<lparr>LocalGroup.GroupID = ''g1''\<rparr>, \<lparr>LocalGroup.GroupID = ''g2''\<rparr>], None)) = None
   \<and> GetJoinedSuperGroupIDList
          ([\<lparr>LocalGroup.GroupID = ''g1''\<rparr>, \<lparr>LocalGroup.GroupID = ''g2''\<rparr>], None) = ([], None)"
proof -
  have h: "snd (GetJoinedSuperGroupList
                  ([\<lparr>LocalGroup.GroupID = ''g1''\<rparr>, \<lparr>LocalGroup.GroupID = ''g2''\<rparr>], None)) = None"
    by (simp add: GetJoinedSuperGroupList_def Wrap_def)
  show ?thesis using h GetJoinedSuperGroupIDList_nil [OF h] by simp
qed

subsection \<open>The push handler\<close>

lemma handlePush_not_MsgData:
  "\<forall>p. Value c \<noteq> MsgDataPtr p \<Longrightarrow> handlePushMsgAndEvent dc c m = Inl TypeAssertionPanic"
  by (cases "Value c") (auto simp add: handlePushMsgAndEvent_def)

lemma handlePush_MaxSeq_PushMsg:
  "Cmd c = CmdMaxSeq \<or> Cmd c = CmdPushMsg \<Longrightarrow> handlePushMsgAndEvent dc c m = Inl TypeAssertionPanic"
  by (cases "Value c") (auto simp add: handlePushMsgAndEvent_def)

text \<open>
  C9. \<open>handlePushMsgAndEvent\<close> asserts the payload of every command to be a
  \<open>*sdkws.MsgData\<close> before it looks at the command kind: a command with a payload of any
  other shape panics in the handler. The kinds \<open>CmdMaxSeq\<close> and \<open>CmdPushMsg\<close> panic with
  every payload, since their cases assert the same payload to be of a second type. So
  the handler is not total over the command kinds.
\<close>

theorem handlePushMsgAndEvent_asserts_MsgData:
  "((\<forall>p. Value c \<noteq> MsgDataPtr p) \<longrightarrow> handlePushMsgAndEvent doConnected c m = Inl TypeAssertionPanic)
   \<and> (Cmd c = CmdMaxSeq \<or> Cmd c = CmdPushMsg \<longrightarrow>
        handlePushMsgAndEvent doConnected c m = Inl TypeAssertionPanic)"
  using handlePush_not_MsgData [of c doConnected m] handlePush_MaxSeq_PushMsg [of c doConnected m]
  by blast

theorem handlePushMsgAndEvent_asserts_MsgData_witness:
  "(\<forall>p. Value \<lparr>Cmd = CmdMaxSeq, Value = SeqMap [(''g'', \<lparr>maxSeq = 10, minSeq = 0, sessionType = 3\<rparr>)]\<rparr>
          \<noteq> MsgDataPtr p)
   \<and> handlePushMsgAndEvent id
        \<lparr>Cmd = CmdMaxSeq, Value = SeqMap [(''g'', \<lparr>maxSeq = 10, minSeq = 0, sessionType = 3\<rparr>)]\<rparr>
        (syncerAt ''g'' 4) = Inl TypeAssertionPanic
   \<and> (\<forall>p. Value \<lparr>Cmd = CmdPushMsg, Value = PushMessagesPtr\<rparr> \<noteq> MsgDataPtr p)
   \<and> handlePushMsgAndEvent id \<lparr>Cmd = CmdPushMsg, Value = PushMessagesPtr\<rparr> (syncerAt ''g'' 4)
        = Inl TypeAssertionPanic
   \<and> Cmd \<lparr>Cmd = CmdPushMsg, Value = MsgDataPtr (Some (msgOf ''g'' 5))\<rparr> = CmdPushMsg
   \<and> handlePushMsgAndEvent id \<lparr>Cmd = CmdPushMsg, Value = MsgDataPtr (Some (msgOf ''g'' 5))\<rparr>
        (syncerAt ''g'' 4) = Inl TypeAssertionPanic"
  using handlePushMsgAndEvent_asserts_MsgData
          [of "\<lparr>Cmd = CmdMaxSeq, Value = SeqMap [(''g'', \<lparr>maxSeq = 10, minSeq = 0, sessionType = 3\<rparr>)]\<rparr>"
              id "syncerAt ''g'' 4"]
        handlePushMsgAndEvent_asserts_MsgData
          [of "\<lparr>Cmd = CmdPushMsg, Value = PushMessagesPtr\<rparr>" id "syncerAt ''g'' 4"]
        handlePushMsgAndEvent_asserts_MsgData
          [of "\<lparr>Cmd = CmdPushMsg, Value = MsgDataPtr (Some (msgOf ''g'' 5))\<rparr>" id "syncerAt ''g'' 4"]
  by simp

text \<open>
  The fast path when it is reached. For a command of a kind that the switch does not
  name, whose payload is an ordered message (\<open>Seq \<noteq> 0\<close>) with \<open>Seq\<close> equal to the cursor
  of its conversation plus one, the handler hands exactly one batch, holding that message
  only, to the sink, sets the cursor of the conversation to that seq, calls no range
  fetch, and leaves the cursors of all other conversations alone.
\<close>

lemma fast_path_when_reached:
  assumes "Value c = MsgDataPtr (Some msg)"
    and "Cmd c \<noteq> CmdConnSuccesss" and "Cmd c \<noteq> CmdMaxSeq" and "Cmd c \<noteq> CmdPushMsg"
    and "Seq msg \<noteq> 0"
    and "Seq msg = maxSeqSynced (lookupSynced m (GroupID msg)) + 1"
  shows "\<exists>m'. handlePushMsgAndEvent doConnected c m = Inr m'
           \<and> conversationCh m' = conversationCh m @ [[msg]]
           \<and> maxSeqSynced (lookupSynced m' (GroupID msg)) = Seq msg
           \<and> fetchCalls m' = fetchCalls m
           \<and> (\<forall>k. k \<noteq> GroupID msg \<longrightarrow> syncedMaxSeqs m' k = syncedMaxSeqs m k)"
  using assms
  by (cases "Cmd c")
     (simp_all add: handlePushMsgAndEvent_def triggerConversation_def lookupSynced_def
        split: option.splits)

text \<open>
  C5. A conversation \<open>g\<close> with cursor 50 receives, in a \<open>CmdPushMsg\<close> command, the message
  with seq 51, which is the cursor plus one. The first statement of the handler asserts
  the payload to be a \<open>*sdkws.MsgData\<close>, and the case \<open>CmdPushMsg\<close> of the switch then
  asserts the same payload to be a \<open>*sdkws.PushMessages\<close>: the handler panics before it
  evaluates the message. Nothing is delivered to the sink and the cursor stays at 50.
\<close>

theorem push_command_panics_before_fast_path:
  "handlePushMsgAndEvent doConnected
     \<lparr>Cmd = CmdPushMsg, Value = MsgDataPtr (Some (msgOf ''g'' 51))\<rparr> (syncerAt ''g'' 50)
     = Inl TypeAssertionPanic
   \<and> DoListener doConnected
     [\<lparr>Cmd = CmdPushMsg, Value = MsgDataPtr (Some (msgOf ''g'' 51))\<rparr>] (syncerAt ''g'' 50)
     = Inl TypeAssertionPanic
   \<and> maxSeqSynced (lookupSynced (syncerAt ''g'' 50) ''g'') = 50
   \<and> Seq (msgOf ''g'' 51) = maxSeqSynced (lookupSynced (syncerAt ''g'' 50) ''g'') + 1
   \<and> Seq (msgOf ''g'' 51) \<noteq> 0"
  by (simp add: handlePushMsgAndEvent_def msgOf_def syncerAt_def lookupSynced_def)

text \<open>
  C1. The cursor can decrease. A conversation \<open>g\<close> with cursor 10 receives a pushed message
  with seq 5: the handler calls \<open>sync\<close> with the bounds \<open>(10, 5)\<close>, the fetch returns no
  error, and \<open>sync\<close> overwrites the cursor with 5.
\<close>

theorem push_below_cursor_lowers_cursor:
  "DoListener doConnected
     [\<lparr>Cmd = CmdOther ''push'', Value = MsgDataPtr (Some (msgOf ''g'' 5))\<rparr>] (syncerAt ''g'' 10)
   = Inr \<lparr>syncedMaxSeqs = [''g'' \<mapsto> \<lparr>maxSeqSynced = 5, sessionType = 3\<rparr>], syncTimes = 0,
          conversationCh = [[]], fetchCalls = [(''g'', 3, 10, 5)]\<rparr>
   \<and> maxSeqSynced (lookupSynced (syncerAt ''g'' 10) ''g'') = 10
   \<and> (5 :: int64) <s 10"
  by (simp add: handlePushMsgAndEvent_def syncerAt_def msgOf_def lookupSynced_def sync_eq)

subsection \<open>Snapshot comparison and the reconnect sweep\<close>

text \<open>
  C3. A conversation \<open>g\<close> with cursor 4 and a snapshot that reports \<open>maxSeq = 10\<close> for it:
  \<open>compareSeqsAndTrigger\<close> calls the range fetch once, with the bounds \<open>(4, 10)\<close>, hands one
  batch to the sink, which is empty, and sets the cursor to 10. None of the messages 5
  to 10 is fetched or delivered.
\<close>

theorem catch_up_delivers_no_message:
  "compareSeqsAndTrigger ks1 ks2
     \<lparr>Cmd = CmdMaxSeq, Value = SeqMap [(''g'', \<lparr>maxSeq = 10, minSeq = 0, sessionType = 3\<rparr>)]\<rparr>
     (syncerAt ''g'' 4)
   = Inr \<lparr>syncedMaxSeqs = [''g'' \<mapsto> \<lparr>maxSeqSynced = 10, sessionType = 3\<rparr>], syncTimes = 1,
          conversationCh = [[]], fetchCalls = [(''g'', 3, 4, 10)]\<rparr>"
  by (simp add: compareSeqsAndTrigger_def compareStep_def syncerAt_def sync_eq Let_def)

lemma lookupSynced_cong:
  "syncedMaxSeqs m = syncedMaxSeqs m' \<Longrightarrow> lookupSynced m k = lookupSynced m' k"
  by (simp add: lookupSynced_def)

lemma reconnectStep_eq:
  "reconnectStep m k =
     (if maxSeqSynced (lookupSynced m k) = 0 then m
      else m\<lparr>fetchCalls := fetchCalls m @
                 [(k, SyncedSeq.sessionType (lookupSynced m k), 0, maxSeqSynced (lookupSynced m k))],
              conversationCh := conversationCh m @ [[]]\<rparr>)"
  by (simp add: reconnectStep_def lookupSynced_def sync_eq map_upd_triv split: option.splits)

lemma foldl_reconnectStep:
  "syncedMaxSeqs (foldl reconnectStep m ks) = syncedMaxSeqs m
   \<and> fetchCalls (foldl reconnectStep m ks) =
       fetchCalls m @
       map (\<lambda>k. (k, SyncedSeq.sessionType (lookupSynced m k), 0, maxSeqSynced (lookupSynced m k)))
         (filter (\<lambda>k. maxSeqSynced (lookupSynced m k) \<noteq> 0) ks)"
proof (induction ks arbitrary: m)
  case Nil
  show ?case by simp
next
  case (Cons k ks)
  have same: "syncedMaxSeqs (reconnectStep m k) = syncedMaxSeqs m"
    by (simp add: reconnectStep_eq)
  have look: "lookupSynced (reconnectStep m k) = lookupSynced m"
    using lookupSynced_cong [OF same] by (rule ext)
  show ?case
    using Cons.IH [of "reconnectStep m k"]
    by (simp add: same look) (simp add: reconnectStep_eq)
qed

lemma fetchCalls_compareStep: "\<exists>r. fetchCalls (compareStep m e) = fetchCalls m @ r"
  by (simp add: compareStep_def sync_eq Let_def split: option.splits)

lemma fetchCalls_foldl_compareStep: "\<exists>r. fetchCalls (foldl compareStep m es) = fetchCalls m @ r"
proof (induction es arbitrary: m)
  case Nil
  show ?case by simp
next
  case (Cons e es)
  obtain r1 where r1: "fetchCalls (compareStep m e) = fetchCalls m @ r1"
    using fetchCalls_compareStep by blast
  obtain r2 where "fetchCalls (foldl compareStep (compareStep m e) es) = fetchCalls (compareStep m e) @ r2"
    using Cons.IH by blast
  with r1 show ?case by simp
qed

lemma reconnect_directive_fetches:
  "\<exists>m' rest. compareSeqsAndTrigger ks1 ks2 \<lparr>Cmd = CmdReconnect, Value = SeqMap newSeqMap\<rparr> m = Inr m'
     \<and> fetchCalls m' =
         fetchCalls m @
         map (\<lambda>k. (k, SyncedSeq.sessionType (lookupSynced m k), 0, maxSeqSynced (lookupSynced m k)))
           (filter (\<lambda>k. maxSeqSynced (lookupSynced m k) \<noteq> 0) ks1) @ rest"
proof -
  define m1 where "m1 = foldl reconnectStep m ks1"
  define m2 where "m2 = foldl compareStep m1 newSeqMap"
  define m3 where "m3 = m2\<lparr>syncTimes := syncTimes m2 + 1\<rparr>"
  obtain r2 where r2: "fetchCalls m2 = fetchCalls m1 @ r2"
    unfolding m2_def using fetchCalls_foldl_compareStep by blast
  have r3: "fetchCalls (foldl reconnectStep m3 ks2) = fetchCalls m3 @
       map (\<lambda>k. (k, SyncedSeq.sessionType (lookupSynced m3 k), 0, maxSeqSynced (lookupSynced m3 k)))
         (filter (\<lambda>k. maxSeqSynced (lookupSynced m3 k) \<noteq> 0) ks2)"
    using foldl_reconnectStep [of m3 ks2] by simp
  have "compareSeqsAndTrigger ks1 ks2 \<lparr>Cmd = CmdReconnect, Value = SeqMap newSeqMap\<rparr> m
          = Inr (foldl reconnectStep m3 ks2)"
    by (simp add: compareSeqsAndTrigger_def triggerReconnect_def triggerReconnectFinished_def
        m1_def m2_def m3_def Let_def)
  moreover have "fetchCalls m3 = fetchCalls m2" by (simp add: m3_def)
  ultimately show ?thesis
    using r2 r3 foldl_reconnectStep [of m ks1] by (simp add: m1_def)
qed

text \<open>
  C6. The reconnect sweep, in whatever order \<open>ks\<close> it visits the conversations, and the
  sweep that ends a reconnect: the range fetches it triggers are, in that order, one
  fetch with the bounds \<open>(0, maxSeqSynced)\<close>, that is the range \<open>[1, maxSeqSynced]\<close>, for
  each conversation whose cursor is not zero, and no fetch for a conversation whose cursor
  is zero; the cursors are the same after the sweep. A \<open>CmdReconnect\<close> command with any
  snapshot starts with exactly these fetches.
\<close>

theorem reconnect_sweep_fetches:
  "fetchCalls (triggerReconnect ks m) =
     fetchCalls m @
     map (\<lambda>k. (k, SyncedSeq.sessionType (lookupSynced m k), 0, maxSeqSynced (lookupSynced m k)))
       (filter (\<lambda>k. maxSeqSynced (lookupSynced m k) \<noteq> 0) ks)
   \<and> fetchCalls (triggerReconnectFinished ks m) =
     fetchCalls m @
     map (\<lambda>k. (k, SyncedSeq.sessionType (lookupSynced m k), 0, maxSeqSynced (lookupSynced m k)))
       (filter (\<lambda>k. maxSeqSynced (lookupSynced m k) \<noteq> 0) ks)
   \<and> syncedMaxSeqs (triggerReconnect ks m) = syncedMaxSeqs m
   \<and> syncedMaxSeqs (triggerReconnectFinished ks m) = syncedMaxSeqs m
   \<and> (\<exists>m' rest.
        compareSeqsAndTrigger ks ks2 \<lparr>Cmd = CmdReconnect, Value = SeqMap newSeqMap\<rparr> m = Inr m'
        \<and> fetchCalls m' =
            fetchCalls m @
            map (\<lambda>k. (k, SyncedSeq.sessionType (lookupSynced m k), 0, maxSeqSynced (lookupSynced m k)))
              (filter (\<lambda>k. maxSeqSynced (lookupSynced m k) \<noteq> 0) ks) @ rest)"
  using reconnect_directive_fetches [of ks ks2 newSeqMap m]
  by (simp add: triggerReconnect_def triggerReconnectFinished_def foldl_reconnectStep)

theorem reconnect_sweep_fetches_witness:
  "fetchCalls (triggerReconnect [''A'', ''B''] syncerAB) = [(''A'', 3, 0, 10)]
   \<and> fetchCalls (triggerReconnectFinished [''B'', ''A''] syncerAB) = [(''A'', 3, 0, 10)]
   \<and> (case compareSeqsAndTrigger [''A'', ''B''] [''B'', ''A'']
             \<lparr>Cmd = CmdReconnect, Value = SeqMap []\<rparr> syncerAB of
         Inl e \<Rightarrow> False
       | Inr m' \<Rightarrow> fetchCalls m' = [(''A'', 3, 0, 10), (''A'', 3, 0, 10)])"
  using reconnect_sweep_fetches [of "[''A'', ''B'']" syncerAB]
        reconnect_sweep_fetches [of "[''B'', ''A'']" syncerAB]
  by (simp add: syncerAB_def lookupSynced_def compareSeqsAndTrigger_def triggerReconnect_def
      triggerReconnectFinished_def reconnectStep_eq)

subsection \<open>Pending seqs\<close>

lemma sint_maxInt64: "sint maxInt64 = 9223372036854775807"
  by (simp add: maxInt64_def)

lemma sint_le_maxInt64: "sint (x :: int64) \<le> 9223372036854775807"
  using sint_lt [of x] by simp

lemma sint_ge_minInt64: "- 9223372036854775808 \<le> sint (x :: int64)"
  using sint_ge [of x] by simp

lemma sint_neq_max: "(x :: int64) \<noteq> maxInt64 \<Longrightarrow> sint x < 9223372036854775807"
proof -
  assume "x \<noteq> maxInt64"
  then have "sint x \<noteq> sint maxInt64"
    by (simp add: word_eq_iff_signed [where ?'a = int, symmetric])
  with sint_le_maxInt64 [of x] show ?thesis by (simp add: sint_maxInt64)
qed

lemma sint_succ: "(x :: int64) \<noteq> maxInt64 \<Longrightarrow> sint (x + 1) = sint x + 1"
proof -
  assume a: "x \<noteq> maxInt64"
  have lo: "- 9223372036854775808 \<le> sint x + 1" using sint_ge_minInt64 [of x] by simp
  have hi: "sint x + 1 < 9223372036854775808" using sint_neq_max [OF a] by simp
  have "sint (x + 1) = signed_take_bit 63 (sint x + 1)"
    by (simp add: sint_word_ariths)
  also have "\<dots> = sint x + 1"
    using lo hi by (simp add: signed_take_bit_int_eq_self)
  finally show ?thesis .
qed

lemma getSeqsNeedSync_loop_upto:
  "maxSeq' \<noteq> maxInt64 \<Longrightarrow>
   getSeqsNeedSync_loop i maxSeq' seqs = Some (seqs @ map word_of_int [sint i .. sint maxSeq'])"
proof (induction "nat (sint maxSeq' + 1 - sint i)" arbitrary: i seqs rule: less_induct)
  case less
  show ?case
  proof (cases "i <=s maxSeq'")
    case True
    then have le: "sint i \<le> sint maxSeq'" by (simp add: word_sle_eq)
    have "sint i < 9223372036854775807" using le sint_neq_max [OF less.prems] by simp
    then have ne: "i \<noteq> maxInt64" by (auto simp: sint_maxInt64)
    have s: "sint (i + 1) = sint i + 1" by (rule sint_succ [OF ne])
    have "nat (sint maxSeq' + 1 - sint (i + 1)) < nat (sint maxSeq' + 1 - sint i)"
      using le s by simp
    from less.hyps [OF this less.prems, of "seqs @ [i]"]
    have "getSeqsNeedSync_loop (i + 1) maxSeq' (seqs @ [i])
            = Some ((seqs @ [i]) @ map word_of_int [sint i + 1 .. sint maxSeq'])"
      by (simp add: s)
    moreover have "[sint i .. sint maxSeq'] = sint i # [sint i + 1 .. sint maxSeq']"
      using le by (simp add: upto_rec1)
    ultimately show ?thesis
      using True by (subst getSeqsNeedSync_loop.simps) simp
  next
    case False
    then have "sint maxSeq' < sint i" by (simp add: word_sle_eq)
    then show ?thesis using False by (subst getSeqsNeedSync_loop.simps) simp
  qed
qed

lemma map_sint_word_of_int_upto:
  "- 9223372036854775808 \<le> a \<Longrightarrow> b \<le> 9223372036854775807 \<Longrightarrow>
   map sint (map (word_of_int :: int \<Rightarrow> int64) [a .. b]) = [a .. b]"
proof -
  assume a: "- 9223372036854775808 \<le> a" and b: "b \<le> 9223372036854775807"
  have "sint (word_of_int x :: int64) = x" if "x \<in> set [a .. b]" for x
    using that a b by (simp add: sint_sbintrunc' signed_take_bit_int_eq_self)
  then have "map (sint \<circ> (word_of_int :: int \<Rightarrow> int64)) [a .. b] = [a .. b]"
    by (intro map_idI) simp
  then show ?thesis by simp
qed

lemma getSeqsNeedSync_upto:
  assumes "syncedMaxSeq \<noteq> maxInt64" and "maxSeq' \<noteq> maxInt64"
  shows "\<exists>seqs. getSeqsNeedSync syncedMaxSeq maxSeq' = Some seqs
           \<and> map sint seqs = [sint syncedMaxSeq + 1 .. sint maxSeq']"
proof -
  have "map sint (map (word_of_int :: int \<Rightarrow> int64) [sint syncedMaxSeq + 1 .. sint maxSeq'])
          = [sint syncedMaxSeq + 1 .. sint maxSeq']"
    using sint_ge_minInt64 [of syncedMaxSeq] sint_le_maxInt64 [of maxSeq']
    by (intro map_sint_word_of_int_upto) simp_all
  then show ?thesis
    by (simp add: getSeqsNeedSync_def getSeqsNeedSync_loop_upto [OF assms(2)] sint_succ [OF assms(1)])
qed

lemma getSeqsNeedSync_loop_maxInt64: "getSeqsNeedSync_loop i maxInt64 seqs = None"
proof (cases "getSeqsNeedSync_loop i maxInt64 seqs")
  case None
  then show ?thesis .
next
  case (Some r)
  have "maxInt64 \<noteq> maxInt64"
  proof (rule getSeqsNeedSync_loop.raw_induct [where P = "\<lambda>i m seqs r. m \<noteq> maxInt64", OF _ Some])
    fix loop :: "int64 \<Rightarrow> int64 \<Rightarrow> int64 list \<Rightarrow> int64 list option" and i m seqs r
    assume IH: "\<And>i m seqs r. loop i m seqs = Some r \<Longrightarrow> m \<noteq> maxInt64"
      and step: "(if i <=s m then loop (i + 1) m (seqs @ [i]) else Some seqs) = Some r"
    show "m \<noteq> maxInt64"
    proof
      assume mx: "m = maxInt64"
      have "i <=s m" unfolding mx word_sle_eq using sint_le_maxInt64 [of i] by (simp add: sint_maxInt64)
      with step have "loop (i + 1) m (seqs @ [i]) = Some r" by simp
      from IH [OF this] mx show False by simp
    qed
  qed
  then show ?thesis by simp
qed

subsection \<open>Shards\<close>

lemma chunks_Nil [simp]: "chunks n [] = []"
  by (simp add: chunks.simps)

lemma chunks_step: "0 < n \<Longrightarrow> xs \<noteq> [] \<Longrightarrow> chunks n xs = take n xs # chunks n (drop n xs)"
  by (subst chunks.simps) simp

lemma concat_chunks: "0 < n \<Longrightarrow> concat (chunks n xs) = xs"
proof (induction n xs rule: chunks.induct)
  case (1 n xs)
  show ?case
  proof (cases "xs = []")
    case True
    then show ?thesis by simp
  next
    case False
    with 1 show ?thesis by (simp add: chunks_step)
  qed
qed

lemma chunks_nonempty_pieces: "[] \<notin> set (chunks n xs)"
proof (induction n xs rule: chunks.induct)
  case (1 n xs)
  show ?case
  proof (cases "n = 0 \<or> xs = []")
    case True
    then show ?thesis by (auto simp: chunks.simps)
  next
    case False
    with 1 show ?thesis by (auto simp: chunks_step)
  qed
qed

lemma chunks_piece_le: "s \<in> set (chunks n xs) \<Longrightarrow> length s \<le> n"
proof (induction n xs rule: chunks.induct)
  case (1 n xs)
  show ?case
  proof (cases "n = 0 \<or> xs = []")
    case True
    with 1 show ?thesis by (auto simp: chunks.simps)
  next
    case False
    with 1 show ?thesis by (auto simp: chunks_step)
  qed
qed

lemma chunks_butlast_full: "s \<in> set (butlast (chunks n xs)) \<Longrightarrow> length s = n"
proof (induction n xs rule: chunks.induct)
  case (1 n xs)
  show ?case
  proof (cases "n = 0 \<or> xs = []")
    case True
    with 1 show ?thesis by (auto simp: chunks.simps)
  next
    case False
    then have n: "0 < n" and xs: "xs \<noteq> []" by auto
    show ?thesis
    proof (cases "drop n xs = []")
      case True
      with 1 n xs show ?thesis by (simp add: chunks_step)
    next
      case dr: False
      then have "n < length xs" by simp
      moreover have "chunks n (drop n xs) \<noteq> []" using dr n by (simp add: chunks_step)
      ultimately show ?thesis using 1 n xs False by (auto simp: chunks_step)
    qed
  qed
qed

lemma splitSeqs_loop_chunks:
  "0 < split \<Longrightarrow> 0 \<le> i \<Longrightarrow>
   splitSeqs_loop split xs i acc = Some (Inr (acc @ chunks (nat split) (drop (nat i) xs)))"
proof (induction "length xs - nat i" arbitrary: i acc rule: less_induct)
  case less
  show ?case
  proof (cases "i < int (length xs)")
    case True
    define e where "e = (if int (length xs) < i + split then int (length xs) else i + split)"
    have ei: "i \<le> e" using True less.prems by (simp add: e_def)
    have ne: "drop (nat i) xs \<noteq> []" using True less.prems by simp
    have piece: "take (nat (e - i)) (drop (nat i) xs) = take (nat split) (drop (nat i) xs)"
      using True less.prems by (auto simp: e_def)
    have dr: "drop (nat (i + split)) xs = drop (nat split) (drop (nat i) xs)"
      using less.prems by (simp add: nat_add_distrib add.commute)
    have "length xs - nat (i + split) < length xs - nat i"
      using True less.prems by linarith
    from less.hyps [OF this less.prems(1), of "acc @ [take (nat (e - i)) (drop (nat i) xs)]"] less.prems
    have rec: "splitSeqs_loop split xs (i + split) (acc @ [take (nat (e - i)) (drop (nat i) xs)])
                 = Some (Inr ((acc @ [take (nat (e - i)) (drop (nat i) xs)])
                      @ chunks (nat split) (drop (nat (i + split)) xs)))"
      by simp
    have "splitSeqs_loop split xs i acc
            = splitSeqs_loop split xs (i + split) (acc @ [take (nat (e - i)) (drop (nat i) xs)])"
      using True ei less.prems by (subst splitSeqs_loop.simps) (simp add: e_def Let_def)
    also note rec
    finally show ?thesis
      using ne less.prems by (simp add: piece dr chunks_step [of "nat split" "drop (nat i) xs"])
  next
    case False
    then show ?thesis by (subst splitSeqs_loop.simps) simp
  qed
qed

lemma splitSeqs_chunks:
  "0 < split \<Longrightarrow>
   splitSeqs split xs = Some (Inr (if xs = [] then [[]] else chunks (nat split) xs))"
proof -
  assume sp: "0 < split"
  show ?thesis
  proof (cases "int (length xs) \<le> split")
    case True
    then have "xs \<noteq> [] \<Longrightarrow> chunks (nat split) xs = [xs]"
      using sp by (simp add: chunks_step)
    with True show ?thesis by (auto simp: splitSeqs_def)
  next
    case False
    then have "xs \<noteq> []" using sp by auto
    with False sp show ?thesis
      using splitSeqs_loop_chunks [of split 0 xs "[]"] by (simp add: splitSeqs_def)
  qed
qed

lemma splitSeqs_shards:
  assumes "0 < split"
  shows "\<exists>shards. splitSeqs split xs = Some (Inr shards)
           \<and> concat shards = xs
           \<and> shards \<noteq> []
           \<and> (\<forall>s \<in> set (butlast shards). int (length s) = split)
           \<and> int (length (last shards)) \<le> split
           \<and> (xs \<noteq> [] \<longrightarrow> [] \<notin> set shards)"
proof (cases "xs = []")
  case True
  then show ?thesis using assms by (simp add: splitSeqs_chunks)
next
  case False
  have n: "0 < nat split" using assms by simp
  have ne: "chunks (nat split) xs \<noteq> []" using False n by (simp add: chunks_step)
  have "length (last (chunks (nat split) xs)) \<le> nat split"
    using ne by (intro chunks_piece_le [of _ "nat split" xs]) simp
  then have l: "int (length (last (chunks (nat split) xs))) \<le> split" using assms by simp
  have b: "\<forall>s \<in> set (butlast (chunks (nat split) xs)). int (length s) = split"
    using chunks_butlast_full [of _ "nat split" xs] assms by auto
  show ?thesis
    using False ne l b concat_chunks [OF n, of xs] chunks_nonempty_pieces [of "nat split" xs]
    by (simp add: splitSeqs_chunks [OF assms])
qed

text \<open>
  C7, as amended. For \<open>syncedMaxSeq\<close> and \<open>maxSeq\<close> both different from the largest
  \<open>int64\<close>, \<open>getSeqsNeedSync\<close> returns, and returns exactly the integers
  \<open>syncedMaxSeq + 1 .. maxSeq\<close> in ascending order, which is the empty list when
  \<open>maxSeq <= syncedMaxSeq\<close>. For a shard size of at least 1, \<open>splitSeqs\<close> returns, and
  returns shards whose concatenation is the list it was given: every shard but the last
  has exactly the shard size, the last one has at most the shard size, and no shard of a
  non-empty list is empty (the empty list gives one empty shard).
\<close>

theorem pending_seqs_and_shards:
  assumes "syncedMaxSeq \<noteq> maxInt64" and "maxSeq' \<noteq> maxInt64" and "0 < split"
  shows "(\<exists>seqs. getSeqsNeedSync syncedMaxSeq maxSeq' = Some seqs
            \<and> map sint seqs = [sint syncedMaxSeq + 1 .. sint maxSeq']
            \<and> (maxSeq' <=s syncedMaxSeq \<longrightarrow> seqs = []))
       \<and> (\<exists>shards. splitSeqs split xs = Some (Inr shards)
            \<and> concat shards = xs
            \<and> shards \<noteq> []
            \<and> (\<forall>s \<in> set (butlast shards). int (length s) = split)
            \<and> int (length (last shards)) \<le> split
            \<and> (xs \<noteq> [] \<longrightarrow> [] \<notin> set shards))"
proof
  obtain seqs where s: "getSeqsNeedSync syncedMaxSeq maxSeq' = Some seqs"
    and m: "map sint seqs = [sint syncedMaxSeq + 1 .. sint maxSeq']"
    using getSeqsNeedSync_upto [OF assms(1,2)] by blast
  have "seqs = []" if "maxSeq' <=s syncedMaxSeq"
  proof -
    from that have "sint maxSeq' < sint syncedMaxSeq + 1" by (simp add: word_sle_eq)
    with m have "map sint seqs = []" by simp
    then show ?thesis by simp
  qed
  with s m show "\<exists>seqs. getSeqsNeedSync syncedMaxSeq maxSeq' = Some seqs
            \<and> map sint seqs = [sint syncedMaxSeq + 1 .. sint maxSeq']
            \<and> (maxSeq' <=s syncedMaxSeq \<longrightarrow> seqs = [])"
    by blast
next
  show "\<exists>shards. splitSeqs split xs = Some (Inr shards)
            \<and> concat shards = xs
            \<and> shards \<noteq> []
            \<and> (\<forall>s \<in> set (butlast shards). int (length s) = split)
            \<and> int (length (last shards)) \<le> split
            \<and> (xs \<noteq> [] \<longrightarrow> [] \<notin> set shards)"
    by (rule splitSeqs_shards [OF assms(3)])
qed

theorem pending_seqs_and_shards_witness:
  "(0 :: int64) \<noteq> maxInt64 \<and> (7 :: int64) \<noteq> maxInt64 \<and> (0 :: int) < 3
   \<and> getSeqsNeedSync 0 7 = Some [1, 2, 3, 4, 5, 6, 7]
   \<and> getSeqsNeedSync 7 7 = Some []
   \<and> splitSeqs 3 [1, 2, 3, 4, 5, 6, 7] = Some (Inr [[1, 2, 3], [4, 5, 6], [7]])
   \<and> map length [[1, 2, 3], [4, 5, 6], [7 :: int64]] = [3, 3, 1]"
proof -
  have h: "(0 :: int64) \<noteq> maxInt64" "(7 :: int64) \<noteq> maxInt64" "(0 :: int) < 3"
    by (simp_all add: maxInt64_def)
  have a: "getSeqsNeedSync 0 7 = Some [1, 2, 3, 4, 5, 6, 7]"
    by (simp add: getSeqsNeedSync_def getSeqsNeedSync_loop.simps word_sle_eq)
  have b: "getSeqsNeedSync 7 7 = Some []"
    by (simp add: getSeqsNeedSync_def getSeqsNeedSync_loop.simps word_sle_eq)
  have c: "splitSeqs 3 [1, 2, 3, 4, 5, 6, 7] = Some (Inr [[1, 2, 3], [4, 5, 6], [7]])"
    by (simp add: splitSeqs_def splitSeqs_loop.simps)
  show ?thesis
    using pending_seqs_and_shards [OF h, of "[1, 2, 3, 4, 5, 6, 7]"] h a b c by simp
qed

lemma splitSeqs_loop_zero:
  assumes "0 \<le> i" and "i < int (length xs)"
  shows "splitSeqs_loop 0 xs i acc = None"
proof (cases "splitSeqs_loop 0 xs i acc")
  case None
  then show ?thesis .
next
  case (Some r)
  have "\<not> (0 = (0 :: int) \<and> 0 \<le> i \<and> i < int (length xs))"
  proof (rule splitSeqs_loop.raw_induct
      [where P = "\<lambda>split xs i acc r. \<not> (split = 0 \<and> 0 \<le> i \<and> i < int (length xs))", OF _ Some])
    fix loop :: "int \<Rightarrow> int64 list \<Rightarrow> int \<Rightarrow> int64 list list \<Rightarrow> (error + int64 list list) option"
      and split xs i acc r
    assume IH: "\<And>split xs i acc r. loop split xs i acc = Some r \<Longrightarrow>
                  \<not> (split = 0 \<and> 0 \<le> i \<and> i < int (length xs))"
      and step: "(if i < int (length xs) then
                    (let end' = (if int (length xs) < i + split then int (length xs) else i + split)
                     in if i < 0 \<or> end' < i then Some (Inl SliceBoundsPanic)
                        else loop split xs (i + split)
                               (acc @ [take (nat (end' - i)) (drop (nat i) xs)]))
                  else Some (Inr acc)) = Some r"
    show "\<not> (split = 0 \<and> 0 \<le> i \<and> i < int (length xs))"
    proof
      assume a: "split = 0 \<and> 0 \<le> i \<and> i < int (length xs)"
      with step have "loop split xs (i + split) (acc @ [take (nat (i - i)) (drop (nat i) xs)]) = Some r"
        by (simp add: Let_def)
      from IH [OF this] a show False by simp
    qed
  qed
  with assms show ?thesis by simp
qed

text \<open>
  C7 as stated fails at the largest \<open>int64\<close>. With \<open>syncedMaxSeq\<close> the largest and \<open>maxSeq\<close>
  the smallest \<open>int64\<close>, \<open>syncedMaxSeq + 1\<close> wraps around and the result is not empty,
  although \<open>maxSeq <= syncedMaxSeq\<close>. With \<open>maxSeq\<close> the largest \<open>int64\<close> the loop does not
  end. With the shard size 0 the loop of \<open>splitSeqs\<close> does not end, and with a negative
  shard size it panics on the first slice.
\<close>

theorem getSeqsNeedSync_wraps:
  "getSeqsNeedSync maxInt64 minInt64 = Some [minInt64]
   \<and> minInt64 <=s maxInt64
   \<and> getSeqsNeedSync 0 maxInt64 = None
   \<and> splitSeqs 0 [1, 2] = None
   \<and> splitSeqs (- 1) [1, 2] = Some (Inl SliceBoundsPanic)"
proof -
  have a: "getSeqsNeedSync maxInt64 minInt64 = Some [minInt64]" "minInt64 <=s maxInt64"
    by (simp_all add: getSeqsNeedSync_def getSeqsNeedSync_loop.simps maxInt64_def minInt64_def)
  have b: "getSeqsNeedSync 0 maxInt64 = None"
    by (simp add: getSeqsNeedSync_def getSeqsNeedSync_loop_maxInt64)
  have c: "splitSeqs 0 [1, 2] = None"
    by (simp add: splitSeqs_def splitSeqs_loop_zero)
  have d: "splitSeqs (- 1) [1, 2] = Some (Inl SliceBoundsPanic)"
    by (simp add: splitSeqs_def splitSeqs_loop.simps)
  from a b c d show ?thesis by simp
qed

subsection \<open>The request loop of \<open>syncMsgBySeqs\<close>\<close>

lemma syncMsgBySeqs_loop_stuck:
  assumes fails: "\<forall>j \<ge> k. \<exists>e. net retryTimes j = SendError e" and more: "i < n"
  shows "syncMsgBySeqs_loop net k n i allMsgs = None"
proof (cases "syncMsgBySeqs_loop net k n i allMsgs")
  case None
  then show ?thesis .
next
  case (Some r)
  have "\<not> ((\<forall>j \<ge> k. \<exists>e. net retryTimes j = SendError e) \<and> i < n)"
  proof (rule syncMsgBySeqs_loop.raw_induct
      [where P = "\<lambda>net k n i allMsgs r. \<not> ((\<forall>j \<ge> k. \<exists>e. net retryTimes j = SendError e) \<and> i < n)",
       OF _ Some])
    fix loop :: "(int \<Rightarrow> nat \<Rightarrow> sendResult) \<Rightarrow> nat \<Rightarrow> nat \<Rightarrow> nat \<Rightarrow> MsgData list \<Rightarrow>
      (MsgData list \<times> error option) option"
      and net k n i allMsgs r
    assume IH: "\<And>net k n i allMsgs r. loop net k n i allMsgs = Some r \<Longrightarrow>
                  \<not> ((\<forall>j \<ge> k. \<exists>e. net retryTimes j = SendError e) \<and> i < n)"
      and step: "(if i < n then
                    (case net retryTimes k of
                       SendError err \<Rightarrow> loop net (k + 1) n i allMsgs
                     | Undecodable \<Rightarrow> loop net (k + 1) n (i + 1) allMsgs
                     | Decoded list \<Rightarrow> loop net (k + 1) n (i + 1) (allMsgs @ list))
                  else Some (allMsgs, None)) = Some r"
    show "\<not> ((\<forall>j \<ge> k. \<exists>e. net retryTimes j = SendError e) \<and> i < n)"
    proof
      assume a: "(\<forall>j \<ge> k. \<exists>e. net retryTimes j = SendError e) \<and> i < n"
      then obtain e where e: "net retryTimes k = SendError e" by auto
      with step a have "loop net (k + 1) n i allMsgs = Some r" by simp
      from IH [OF this] a show False by auto
    qed
  qed
  with assms show ?thesis by simp
qed

text \<open>
  C2. Seven pending seqs in shards of three, that is three shards. When the request for
  the second shard fails every time, \<open>syncMsgBySeqs\<close> sends it again without end and
  does not return: no error comes back. When the response for the second shard does not
  decode, that shard is skipped and the messages of the other two come back with a nil
  error.
\<close>

theorem syncMsgBySeqs_never_aborts:
  "syncMsgBySeqs 3 netSecondShardFails [1, 2, 3, 4, 5, 6, 7] = None
   \<and> syncMsgBySeqs 3 netSecondShardUndecodable [1, 2, 3, 4, 5, 6, 7]
       = Some (Inr ([msgOf ''g'' 1, msgOf ''g'' 2, msgOf ''g'' 3, msgOf ''g'' 7], None))"
proof
  have sp: "splitSeqs 3 [1, 2, 3, 4, 5, 6, 7] = Some (Inr [[1, 2, 3], [4, 5, 6], [7]])"
    by (simp add: splitSeqs_def splitSeqs_loop.simps)
  have stuck: "syncMsgBySeqs_loop netSecondShardFails (Suc 0) (Suc (Suc (Suc 0))) (Suc 0) acc = None" for acc
    by (rule syncMsgBySeqs_loop_stuck) (simp_all add: netSecondShardFails_def)
  have "syncMsgBySeqs_loop netSecondShardFails 0 (Suc (Suc (Suc 0))) 0 [] = None"
    by (subst syncMsgBySeqs_loop.simps) (simp add: netSecondShardFails_def stuck)
  then show "syncMsgBySeqs 3 netSecondShardFails [1, 2, 3, 4, 5, 6, 7] = None"
    by (simp add: syncMsgBySeqs_def sp)
  show "syncMsgBySeqs 3 netSecondShardUndecodable [1, 2, 3, 4, 5, 6, 7]
       = Some (Inr ([msgOf ''g'' 1, msgOf ''g'' 2, msgOf ''g'' 3, msgOf ''g'' 7], None))"
    by (simp add: syncMsgBySeqs_def sp syncMsgBySeqs_loop.simps netSecondShardUndecodable_def)
qed

end
